theory Spec2Isabelle
  imports Main
begin

section \<open>Python primitives used by app.py\<close>

text \<open>
  Exceptions that can leave a handler. \<open>ValueError\<close> is what \<open>int(...)\<close> raises on
  text that is not a number, \<open>OverflowError\<close> is what the sqlite3 driver raises for an
  integer outside a 64-bit column, \<open>Raised name\<close> stands for any other exception class.
\<close>

datatype py_error = ValueError | OverflowError | Raised string

subsection \<open>str(int): decimal text of an integer\<close>

definition digit_char :: "nat \<Rightarrow> char" where
  "digit_char d = char_of (48 + d)"

fun str_nat :: "nat \<Rightarrow> string" where
  "str_nat n = (if n < 10 then [digit_char n] else str_nat (n div 10) @ [digit_char (n mod 10)])"

declare str_nat.simps [simp del]

definition str_int :: "int \<Rightarrow> string" where
  "str_int i = (if i < 0 then CHR ''-'' # str_nat (nat (- i)) else str_nat (nat i))"

subsection \<open>int(str): parsing decimal text\<close>

text \<open>
  The model covers ASCII text. Python's \<open>int\<close> strips white space on both sides,
  takes one optional sign, then needs at least one digit; single underscores may stand
  between digits. More than 4300 digits are refused (the interpreter's default limit on
  integer string conversion). Anything else raises \<open>ValueError\<close>.
\<close>

definition is_space :: "char \<Rightarrow> bool" where
  \<comment> \<open>tab, line feed, vertical tab, form feed, carriage return, space\<close>
  "is_space c = (let k = (of_char c :: nat) in (9 \<le> k \<and> k \<le> 13) \<or> k = 32)"

definition is_digit :: "char \<Rightarrow> bool" where
  "is_digit c = (let k = (of_char c :: nat) in 48 \<le> k \<and> k \<le> 57)"

definition digit_val :: "char \<Rightarrow> int" where
  "digit_val c = int (of_char c) - 48"

definition strip :: "string \<Rightarrow> string" where
  "strip s = rev (dropWhile is_space (rev (dropWhile is_space s)))"

fun digits_ok :: "string \<Rightarrow> bool" where
  "digits_ok [] = False"
| "digits_ok [c] = is_digit c"
| "digits_ok (c # d # cs) =
     (is_digit c \<and> (if d = CHR ''_'' then digits_ok cs else digits_ok (d # cs)))"

definition split_sign :: "string \<Rightarrow> bool \<times> string" where
  "split_sign t =
     (case t of
        [] \<Rightarrow> (False, [])
      | c # r \<Rightarrow> if c = CHR ''-'' then (True, r)
                 else if c = CHR ''+'' then (False, r)
                 else (False, t))"

definition py_int :: "string \<Rightarrow> py_error + int" where
  "py_int s =
     (let (neg, body) = split_sign (strip s);
          ds = filter (\<lambda>c. c \<noteq> CHR ''_'') body
      in if digits_ok body \<and> length ds \<le> 4300
         then let v = foldl (\<lambda>acc c. 10 * acc + digit_val c) 0 ds
              in Inr (if neg then - v else v)
         else Inl ValueError)"

section \<open>The RDF graph\<close>

text \<open>
  An rdflib graph as far as app.py reads and writes it: the namespace bindings in
  iteration order (a prefix may be \<open>None\<close>), the graph identifier (absent, or the text
  of the identifier node) and the triples. A graph holds a triple at most once.
  \<open>Literal v\<close> is \<open>Literal(v, datatype=XSD.integer)\<close>.
\<close>

datatype rdf_term = URIRef string | Literal int

type_synonym triple = "rdf_term \<times> rdf_term \<times> rdf_term"

record rdf_graph =
  namespaces :: "(string option \<times> string) list"
  graph_identifier :: "string option"
  triples :: "triple list"

definition Graph :: "string \<Rightarrow> rdf_graph" where
  \<comment> \<open>\<open>Graph()\<close>: no triples, a fresh blank-node identifier chosen by rdflib. The
      built-in prefixes (rdf, rdfs, owl, xsd, ...) are left out: only the serializer
      reads them.\<close>
  "Graph fresh = \<lparr>namespaces = [], graph_identifier = Some fresh, triples = []\<rparr>"

definition graph_bind :: "string \<Rightarrow> string \<Rightarrow> rdf_graph \<Rightarrow> rdf_graph" where
  \<comment> \<open>\<open>g.bind(prefix, namespace)\<close>\<close>
  "graph_bind pfx uri g = g\<lparr>namespaces := namespaces g @ [(Some pfx, uri)]\<rparr>"

definition graph_add :: "triple \<Rightarrow> rdf_graph \<Rightarrow> rdf_graph" where
  \<comment> \<open>\<open>g.add((s, p, o))\<close>\<close>
  "graph_add t g = (if t \<in> set (triples g) then g else g\<lparr>triples := triples g @ [t]\<rparr>)"

section \<open>Loading the ontology: infer_base_iri\<close>

text \<open>app.py, lines 25 to 40. The \<open>for\<close> loop over the bindings is \<open>namespaces_loop\<close>.\<close>

definition default_iri :: string where
  "default_iri = ''http://www.semanticweb.org/nitesh/ontologies/2025/11/math-addition#''"

definition ensure_hash :: "string \<Rightarrow> string" where
  \<comment> \<open>\<open>iri if iri.endswith("#") else iri + "#"\<close>\<close>
  "ensure_hash iri = (if iri \<noteq> [] \<and> last iri = CHR ''#'' then iri else iri @ ''#'')"

definition base_prefix :: "string option \<Rightarrow> bool" where
  \<comment> \<open>\<open>prefix in ("", None, "math-addition")\<close>\<close>
  "base_prefix pfx = (pfx = Some [] \<or> pfx = None \<or> pfx = Some ''math-addition'')"

fun namespaces_loop :: "(string option \<times> string) list \<Rightarrow> string option" where
  "namespaces_loop [] = None"
| "namespaces_loop ((pfx, uri) # rest) =
     (if base_prefix pfx then Some (ensure_hash uri) else namespaces_loop rest)"

definition infer_base_iri :: "rdf_graph \<Rightarrow> string" where
  "infer_base_iri graph =
     (case namespaces_loop (namespaces graph) of
        Some r \<Rightarrow> r
      | None \<Rightarrow>
          (let iri = (case graph_identifier graph of Some i \<Rightarrow> i | None \<Rightarrow> [])
           in if iri \<noteq> [] then ensure_hash iri else default_iri))"

section \<open>The attempt table\<close>

text \<open>
  The columns of \<open>Attempt\<close>. The object built by the handler has the first six; the
  insert adds \<open>id\<close> (here \<open>attempt_id\<close>) and \<open>timestamp\<close>. Columns \<open>a\<close> and \<open>b\<close> are
  \<open>operand_a\<close> and \<open>operand_b\<close>. A timestamp is the clock reading in seconds.
\<close>

record attempt_columns =
  user_id :: int
  operand_a :: int
  operand_b :: int
  student_answer :: int
  correct_answer :: int
  is_correct :: bool

record attempt = attempt_columns +
  attempt_id :: int
  timestamp :: int

text \<open>
  What a handler does to the world, in order: the steps of the database session, of the
  graph under construction and of the console.
\<close>

datatype event =
    Ev_session_add
  | Ev_commit int
  | Ev_graph_new
  | Ev_graph_bind
  | Ev_graph_add triple
  | Ev_serialize rdf_graph
  | Ev_print string

record app_state =
  attempt_table :: "attempt list"
  trace :: "event list"

text \<open>
  What the process and the moment supply: the parsed ontology, the database clock at the
  insert, the label rdflib picks for a new graph, and rdflib's Turtle serializer,
  which either returns the text or raises.
\<close>

record env =
  ONTOLOGY :: rdf_graph
  current_timestamp :: int
  bnode :: string
  serialize :: "rdf_graph \<Rightarrow> py_error + string"

definition ONTO_IRI :: "env \<Rightarrow> string" where
  "ONTO_IRI e = infer_base_iri (ONTOLOGY e)"

definition MATH :: "env \<Rightarrow> string \<Rightarrow> rdf_term" where
  \<comment> \<open>\<open>Namespace(ONTO_IRI)[name]\<close>\<close>
  "MATH e name = URIRef (ONTO_IRI e @ name)"

definition RDF_type :: rdf_term where
  "RDF_type = URIRef ''http://www.w3.org/1999/02/22-rdf-syntax-ns#type''"

definition emit :: "event \<Rightarrow> app_state \<Rightarrow> app_state" where
  "emit ev st = st\<lparr>trace := trace st @ [ev]\<rparr>"

definition sqlite_integer :: "int \<Rightarrow> bool" where
  \<comment> \<open>config.py stores in SQLite, whose INTEGER holds 64 signed bits\<close>
  "sqlite_integer v = (- (2 ^ 63) \<le> v \<and> v < 2 ^ 63)"

definition storable :: "attempt_columns \<Rightarrow> bool" where
  "storable p =
     (sqlite_integer (user_id p) \<and> sqlite_integer (operand_a p) \<and> sqlite_integer (operand_b p)
      \<and> sqlite_integer (student_answer p) \<and> sqlite_integer (correct_answer p))"

definition next_rowid :: "attempt list \<Rightarrow> int" where
  \<comment> \<open>the integer primary key of a new row: one more than the largest in the table\<close>
  "next_rowid tbl = fold max (map attempt_id tbl) 0 + 1"

definition db_session_add :: "attempt_columns \<Rightarrow> app_state \<Rightarrow> app_state" where
  "db_session_add p st = emit Ev_session_add st"

definition insert_row :: "env \<Rightarrow> attempt_columns \<Rightarrow> int \<Rightarrow> attempt" where
  \<comment> \<open>the row the insert writes: the object's columns, the new key, the clock's default\<close>
  "insert_row e p aid =
     \<lparr>user_id = user_id p, operand_a = operand_a p, operand_b = operand_b p,
      student_answer = student_answer p, correct_answer = correct_answer p,
      is_correct = is_correct p,
      attempt_id = aid, timestamp = current_timestamp e\<rparr>"

definition db_session_commit ::
  "env \<Rightarrow> attempt_columns \<Rightarrow> app_state \<Rightarrow> py_error + (int \<times> app_state)" where
  "db_session_commit e p st =
     (if storable p
      then
        let aid = next_rowid (attempt_table st);
            row = insert_row e p aid
        in Inr (aid, emit (Ev_commit aid) (st\<lparr>attempt_table := attempt_table st @ [row]\<rparr>))
      else Inl OverflowError)"

section \<open>Requests and responses\<close>

record request =
  form :: "(string \<times> string) list"
  args :: "(string \<times> string) list"
  current_user :: "int option"

datatype json = JBool bool | JInt int | JStr string

type_synonym payload = "(string \<times> json) list"

record pagination =
  items :: "attempt list"
  page :: int
  per_page :: int
  total :: nat

text \<open>
  How a handler ends: a JSON body, a rendered page, the redirect to the login view that
  \<open>login_required\<close> sends to an anonymous caller, the 400 answer for a missing form key,
  or an exception nobody caught (a server fault).
\<close>

datatype outcome =
    Json payload
  | Html pagination
  | Redirect string
  | Bad_request
  | Unhandled py_error

definition form_int :: "request \<Rightarrow> string \<Rightarrow> outcome + int" where
  \<comment> \<open>\<open>int(request.form[key])\<close>\<close>
  "form_int req k =
     (case map_of (form req) k of
        None \<Rightarrow> Inl Bad_request
      | Some v \<Rightarrow> (case py_int v of Inl err \<Rightarrow> Inl (Unhandled err) | Inr n \<Rightarrow> Inr n))"

section \<open>The check route\<close>

definition check_mark :: string where
  \<comment> \<open>U+2705 in UTF-8\<close>
  "check_mark = [CHR 0xE2, CHR 0x9C, CHR 0x85]"

definition cross_mark :: string where
  \<comment> \<open>U+274C in UTF-8\<close>
  "cross_mark = [CHR 0xE2, CHR 0x9D, CHR 0x8C]"

definition result_message :: "int \<Rightarrow> int \<Rightarrow> int \<Rightarrow> bool \<Rightarrow> string" where
  "result_message a b correct ok =
     (if ok then check_mark @ '' Correct! '' else cross_mark @ '' Try again. '')
     @ str_int a @ '' + '' @ str_int b @ '' = '' @ str_int correct"

text \<open>Lines 168 to 185: the four instance IRIs and the ten triples.\<close>

definition expr_iri :: "env \<Rightarrow> int \<Rightarrow> rdf_term" where
  "expr_iri e aid = MATH e (''Expr_'' @ str_int aid)"

definition num_iri :: "env \<Rightarrow> int \<Rightarrow> int \<Rightarrow> rdf_term" where
  "num_iri e v aid = MATH e (''Num_'' @ str_int v @ ''_'' @ str_int aid)"

definition instance_iris :: "env \<Rightarrow> int \<Rightarrow> int \<Rightarrow> int \<Rightarrow> int \<Rightarrow> rdf_term list" where
  \<comment> \<open>\<open>expr\<close>, \<open>num_a\<close>, \<open>num_b\<close>, \<open>num_res\<close>\<close>
  "instance_iris e aid a b student_ans =
     [expr_iri e aid, num_iri e a aid, num_iri e b aid, num_iri e student_ans aid]"

definition attempt_triples :: "env \<Rightarrow> int \<Rightarrow> int \<Rightarrow> int \<Rightarrow> int \<Rightarrow> triple list" where
  \<comment> \<open>the ten \<open>g.add\<close> calls, in order\<close>
  "attempt_triples e aid a b student_ans =
     (let expr = expr_iri e aid;
          num_a = num_iri e a aid;
          num_b = num_iri e b aid;
          num_res = num_iri e student_ans aid
      in [(expr, RDF_type, MATH e ''AdditionExpression''),
          (expr, MATH e ''hasAdded'', num_a),
          (expr, MATH e ''hasAdded'', num_b),
          (expr, MATH e ''hasResult'', num_res),
          (num_a, RDF_type, MATH e ''Number''),
          (num_b, RDF_type, MATH e ''Number''),
          (num_res, RDF_type, MATH e ''Number''),
          (num_a, MATH e ''hasValue'', Literal a),
          (num_b, MATH e ''hasValue'', Literal b),
          (num_res, MATH e ''hasValue'', Literal student_ans)])"

definition attempt_graph :: "env \<Rightarrow> int \<Rightarrow> int \<Rightarrow> int \<Rightarrow> int \<Rightarrow> rdf_graph" where
  \<comment> \<open>the graph \<open>g\<close> once the last \<open>g.add\<close> has run\<close>
  "attempt_graph e aid a b student_ans =
     foldl (\<lambda>g t. graph_add t g)
       (graph_bind ''math'' (ONTO_IRI e) (Graph (bnode e)))
       (attempt_triples e aid a b student_ans)"

definition annotate ::
  "env \<Rightarrow> int \<Rightarrow> int \<Rightarrow> int \<Rightarrow> int \<Rightarrow> app_state \<Rightarrow> rdf_graph \<times> app_state" where
  \<comment> \<open>the graph, and the steps that built it written to the trace\<close>
  "annotate e aid a b student_ans st =
     (attempt_graph e aid a b student_ans,
      foldl (\<lambda>s t. emit (Ev_graph_add t) s)
        (emit Ev_graph_bind (emit Ev_graph_new st))
        (attempt_triples e aid a b student_ans))"

definition turtle_header :: string where
  "turtle_header = CHR 0x0A # ''--- Student Attempt (OWL/Turtle) ---''"

definition result_payload :: "int \<Rightarrow> int \<Rightarrow> int \<Rightarrow> bool \<Rightarrow> payload" where
  \<comment> \<open>the dictionary handed to \<open>jsonify\<close>\<close>
  "result_payload a b correct ok =
     [(''correct'', JBool ok),
      (''answer'', JInt correct),
      (''message'', JStr (result_message a b correct ok))]"

text \<open>
  app.py, lines 143 to 194, with \<open>login_required\<close> in front. Every \<open>int(request.form[...])\<close>
  can end the request; so can the commit and the serializer; nothing in the route catches
  an exception.
\<close>

definition check_answer :: "env \<Rightarrow> request \<Rightarrow> app_state \<Rightarrow> outcome \<times> app_state" where
  "check_answer e req st =
     (case current_user req of
        None \<Rightarrow> (Redirect ''login'', st)
      | Some uid \<Rightarrow>
     (case form_int req ''a'' of
        Inl out \<Rightarrow> (out, st)
      | Inr a \<Rightarrow>
     (case form_int req ''b'' of
        Inl out \<Rightarrow> (out, st)
      | Inr b \<Rightarrow>
     (case form_int req ''answer'' of
        Inl out \<Rightarrow> (out, st)
      | Inr student_ans \<Rightarrow>
          let correct = a + b;
              ok = (student_ans = correct);
              new = \<lparr>user_id = uid, operand_a = a, operand_b = b,
                     student_answer = student_ans, correct_answer = correct,
                     is_correct = ok\<rparr>;
              st1 = db_session_add new st
          in (case db_session_commit e new st1 of
                Inl err \<Rightarrow> (Unhandled err, st1)
              | Inr (aid, st2) \<Rightarrow>
                  let (g, st3) = annotate e aid a b student_ans st2;
                      st4 = emit (Ev_print turtle_header) st3;
                      st5 = emit (Ev_serialize g) st4
                  in (case serialize e g of
                        Inl err \<Rightarrow> (Unhandled err, st5)
                      | Inr text \<Rightarrow>
                          (Json (result_payload a b correct ok),
                           emit (Ev_print text) st5)))))))"

definition annotation_event :: "event \<Rightarrow> bool" where
  \<comment> \<open>the steps after the comment "Optional: Generate OWL-style Turtle"\<close>
  "annotation_event ev =
     (case ev of
        Ev_session_add \<Rightarrow> False
      | Ev_commit _ \<Rightarrow> False
      | _ \<Rightarrow> True)"

section \<open>The dashboard route\<close>

text \<open>app.py, lines 94 to 108.\<close>

definition args_get_int :: "request \<Rightarrow> string \<Rightarrow> int \<Rightarrow> int" where
  \<comment> \<open>\<open>request.args.get(key, default, type=int)\<close>: the default also when \<open>int\<close> raises\<close>
  "args_get_int req k d =
     (case map_of (args req) k of
        None \<Rightarrow> d
      | Some v \<Rightarrow> (case py_int v of Inl _ \<Rightarrow> d | Inr n \<Rightarrow> n))"

definition filter_by_user_id :: "int \<Rightarrow> attempt list \<Rightarrow> attempt list" where
  "filter_by_user_id uid tbl = filter (\<lambda>r. user_id r = uid) tbl"

definition order_by_timestamp_desc :: "attempt list \<Rightarrow> attempt list" where
  \<comment> \<open>\<open>ORDER BY timestamp DESC\<close> names one key; rows with equal timestamps stay in the
      order the scan of the table yields them (a stable sort)\<close>
  "order_by_timestamp_desc rows = sort_key (\<lambda>r. - timestamp r) rows"

definition paginate :: "int \<Rightarrow> int \<Rightarrow> attempt list \<Rightarrow> py_error + pagination" where
  \<comment> \<open>\<open>paginate(page, per_page, error_out=False)\<close>: a page below 1 becomes page 1; the
      offset is handed to SQLite, which takes 64-bit integers only\<close>
  "paginate pg pp rows =
     (let pg1 = (if pg < 1 then 1 else pg);
          offset = (pg1 - 1) * pp
      in if sqlite_integer offset
         then Inr \<lparr>items = take (nat pp) (drop (nat offset) rows),
                   page = pg1, per_page = pp, total = length rows\<rparr>
         else Inl OverflowError)"

definition dashboard :: "request \<Rightarrow> app_state \<Rightarrow> outcome" where
  "dashboard req st =
     (case current_user req of
        None \<Rightarrow> Redirect ''login''
      | Some uid \<Rightarrow>
          (case paginate (args_get_int req ''page'' 1) 10
                  (order_by_timestamp_desc (filter_by_user_id uid (attempt_table st))) of
             Inl err \<Rightarrow> Unhandled err
           | Inr pagination \<Rightarrow> Html pagination))"

section \<open>Sample runs\<close>

text \<open>
  Concrete inputs for the examples below: an ontology whose default prefix is bound to
  \<open>http://x/\<close>, a clock that reads 100, a serializer that writes one line per triple and
  one that raises; the form of one submission; an empty database.
\<close>

definition term_text :: "rdf_term \<Rightarrow> string" where
  "term_text t = (case t of URIRef u \<Rightarrow> ''<'' @ u @ ''>'' | Literal v \<Rightarrow> str_int v)"

definition lines_of :: "rdf_graph \<Rightarrow> py_error + string" where
  "lines_of g =
     Inr (concat (map (\<lambda>(s, p, o'). term_text s @ '' '' @ term_text p @ '' '' @ term_text o' @ '' .'')
                      (triples g)))"

definition sample_env :: env where
  "sample_env =
     \<lparr>ONTOLOGY = \<lparr>namespaces = [(Some ''owl'', ''http://www.w3.org/2002/07/owl#''),
                                  (Some [], ''http://x/'')],
                    graph_identifier = Some ''N0'', triples = []\<rparr>,
      current_timestamp = 100, bnode = ''N1'', serialize = lines_of\<rparr>"

definition failing_env :: env where
  "failing_env = sample_env\<lparr>serialize := (\<lambda>g. Inl (Raised ''Exception''))\<rparr>"

definition submission :: "string \<Rightarrow> string \<Rightarrow> string \<Rightarrow> request" where
  "submission a b answer =
     \<lparr>form = [(''a'', a), (''b'', b), (''answer'', answer)], args = [], current_user = Some 1\<rparr>"

definition empty_db :: app_state where
  "empty_db = \<lparr>attempt_table = [], trace = []\<rparr>"

definition sample_row :: "int \<Rightarrow> int \<Rightarrow> attempt" where
  \<comment> \<open>a stored attempt of user 1 with the given key and timestamp\<close>
  "sample_row i t =
     \<lparr>user_id = 1, operand_a = 1, operand_b = 1, student_answer = 2, correct_answer = 2,
      is_correct = True, attempt_id = i, timestamp = t\<rparr>"

definition three_rows :: app_state where
  "three_rows = \<lparr>attempt_table = [sample_row 1 10, sample_row 2 20, sample_row 3 30], trace = []\<rparr>"

definition same_second :: app_state where
  \<comment> \<open>the database after two submissions of user 1 at the same clock reading\<close>
  "same_second =
     snd (check_answer sample_env (submission ''1'' ''1'' ''2'')
       (snd (check_answer sample_env (submission ''3'' ''4'' ''7'') empty_db)))"

section \<open>Properties of infer_base_iri\<close>

lemma ensure_hash_ends: "ensure_hash iri \<noteq> [] \<and> last (ensure_hash iri) = CHR ''#''"
  by (simp add: ensure_hash_def)

lemma namespaces_loop_ends:
  "namespaces_loop ns = Some r \<Longrightarrow> r \<noteq> [] \<and> last r = CHR ''#''"
  by (induction ns rule: namespaces_loop.induct) (auto simp: ensure_hash_ends split: if_splits)

lemma namespaces_loop_filter:
  "namespaces_loop ns =
     (case filter (\<lambda>p. base_prefix (fst p)) ns of
        [] \<Rightarrow> None
      | p # _ \<Rightarrow> Some (ensure_hash (snd p)))"
  by (induction ns rule: namespaces_loop.induct) auto

lemma default_iri_ends: "default_iri \<noteq> [] \<and> last default_iri = CHR ''#''"
  by (simp add: default_iri_def)

text \<open>
  C7. For every graph, \<open>infer_base_iri\<close> returns text that ends in \<open>#\<close>. The text is the
  IRI of the first namespace binding whose prefix is empty, \<open>None\<close> or \<open>math-addition\<close>
  when there is one; else the graph's identifier when it is present and not empty; else
  the hardcoded default. Whichever is chosen gets a \<open>#\<close> appended unless it already ends
  in one. A graph whose only binding is the default prefix for \<open>http://x/\<close> gives
  \<open>http://x/#\<close>, and a graph with no bindings and no identifier gives the default.
\<close>

theorem infer_base_iri_spec:
  "infer_base_iri g \<noteq> [] \<and> last (infer_base_iri g) = CHR ''#''
   \<and> infer_base_iri g =
       (case filter (\<lambda>p. base_prefix (fst p)) (namespaces g) of
          p # _ \<Rightarrow> ensure_hash (snd p)
        | [] \<Rightarrow>
            (case graph_identifier g of
               Some i \<Rightarrow> if i = [] then default_iri else ensure_hash i
             | None \<Rightarrow> default_iri))
   \<and> infer_base_iri \<lparr>namespaces = [(Some [], ''http://x/'')], graph_identifier = gi, triples = ts\<rparr>
       = ''http://x/#''
   \<and> infer_base_iri \<lparr>namespaces = [], graph_identifier = None, triples = ts\<rparr>
       = ''http://www.semanticweb.org/nitesh/ontologies/2025/11/math-addition#''"
proof -
  have ends: "infer_base_iri g \<noteq> [] \<and> last (infer_base_iri g) = CHR ''#''"
  proof (cases "namespaces_loop (namespaces g)")
    case None
    then show ?thesis
      using ensure_hash_ends default_iri_ends
      by (simp add: infer_base_iri_def Let_def split: option.splits)
  next
    case (Some r)
    then show ?thesis
      using namespaces_loop_ends [OF Some] by (simp add: infer_base_iri_def)
  qed
  have choice: "infer_base_iri g =
       (case filter (\<lambda>p. base_prefix (fst p)) (namespaces g) of
          p # _ \<Rightarrow> ensure_hash (snd p)
        | [] \<Rightarrow>
            (case graph_identifier g of
               Some i \<Rightarrow> if i = [] then default_iri else ensure_hash i
             | None \<Rightarrow> default_iri))"
    by (simp add: infer_base_iri_def namespaces_loop_filter Let_def
          split: list.splits option.splits)
  have ex1: "infer_base_iri \<lparr>namespaces = [(Some [], ''http://x/'')], graph_identifier = gi, triples = ts\<rparr>
       = ''http://x/#''"
    by (simp add: infer_base_iri_def base_prefix_def ensure_hash_def)
  have ex2: "infer_base_iri \<lparr>namespaces = [], graph_identifier = None, triples = ts\<rparr>
       = ''http://www.semanticweb.org/nitesh/ontologies/2025/11/math-addition#''"
    by (simp add: infer_base_iri_def default_iri_def)
  from ends choice ex1 ex2 show ?thesis by blast
qed

theorem infer_base_iri_spec_witness:
  "infer_base_iri \<lparr>namespaces = [(Some ''owl'', ''http://www.w3.org/2002/07/owl#''),
                                  (Some ''math-addition'', ''http://example.org/math'')],
                    graph_identifier = Some ''N0'', triples = []\<rparr>
     = ''http://example.org/math#''"
  using infer_base_iri_spec
    [of "\<lparr>namespaces = [(Some ''owl'', ''http://www.w3.org/2002/07/owl#''),
                         (Some ''math-addition'', ''http://example.org/math'')],
           graph_identifier = Some ''N0'', triples = []\<rparr>"]
  by (simp add: base_prefix_def ensure_hash_def)

section \<open>Decimal text\<close>

lemma digit_char_code: "d < 10 \<Longrightarrow> (of_char (digit_char d) :: nat) = 48 + d"
  by (simp add: digit_char_def)

lemma digit_char_inj:
  assumes "d < 10" and "d' < 10" and "digit_char d = digit_char d'"
  shows "d = d'"
proof -
  have "(of_char (digit_char d) :: nat) = of_char (digit_char d')"
    using assms(3) by (rule arg_cong)
  then have "48 + d = 48 + d'"
    by (simp only: digit_char_code [OF assms(1)] digit_char_code [OF assms(2)])
  then show ?thesis by simp
qed

lemma digit_char_not_underscore:
  assumes "d < 10"
  shows "digit_char d \<noteq> CHR ''_''"
proof
  assume "digit_char d = CHR ''_''"
  then have "(of_char (digit_char d) :: nat) = of_char CHR ''_''" by (rule arg_cong)
  then have "48 + d = 95" by (simp add: digit_char_code [OF assms])
  with assms show False by simp
qed

lemma digit_char_not_minus:
  assumes "d < 10"
  shows "digit_char d \<noteq> CHR ''-''"
proof
  assume "digit_char d = CHR ''-''"
  then have "(of_char (digit_char d) :: nat) = of_char CHR ''-''" by (rule arg_cong)
  then have "48 + d = 45" by (simp add: digit_char_code [OF assms])
  then show False by simp
qed

lemma str_nat_digits: "c \<in> set (str_nat n) \<Longrightarrow> \<exists>d<10. c = digit_char d"
proof (induction n rule: str_nat.induct)
  case (1 n)
  show ?case
  proof (cases "n < 10")
    case True
    with "1.prems" show ?thesis by (auto simp: str_nat.simps [of n])
  next
    case False
    with "1.prems" have "c \<in> set (str_nat (n div 10)) \<or> c = digit_char (n mod 10)"
      by (auto simp: str_nat.simps [of n])
    then show ?thesis
    proof
      assume "c \<in> set (str_nat (n div 10))"
      with False "1.IH" show ?thesis by blast
    next
      assume "c = digit_char (n mod 10)"
      moreover have "n mod 10 < 10" by simp
      ultimately show ?thesis by blast
    qed
  qed
qed

lemma str_nat_not_Nil: "str_nat n \<noteq> []"
  by (subst str_nat.simps) simp

lemma str_nat_inj: "str_nat n = str_nat m \<Longrightarrow> n = m"
proof (induction n arbitrary: m rule: str_nat.induct)
  case (1 n)
  show ?case
  proof (cases "n < 10")
    case n_small: True
    show ?thesis
    proof (cases "m < 10")
      case True
      with n_small "1.prems" show ?thesis
        by (simp add: str_nat.simps [of n] str_nat.simps [of m] digit_char_inj)
    next
      case False
      with n_small "1.prems" have "[digit_char n] = str_nat (m div 10) @ [digit_char (m mod 10)]"
        by (simp add: str_nat.simps [of n] str_nat.simps [of m])
      then have "str_nat (m div 10) = []" by simp
      then show ?thesis using str_nat_not_Nil by blast
    qed
  next
    case n_big: False
    show ?thesis
    proof (cases "m < 10")
      case True
      with n_big "1.prems" have "str_nat (n div 10) @ [digit_char (n mod 10)] = [digit_char m]"
        by (simp add: str_nat.simps [of n] str_nat.simps [of m])
      then have "str_nat (n div 10) = []" by simp
      then show ?thesis using str_nat_not_Nil by blast
    next
      case False
      with n_big "1.prems"
      have eq: "str_nat (n div 10) @ [digit_char (n mod 10)]
                  = str_nat (m div 10) @ [digit_char (m mod 10)]"
        by (simp add: str_nat.simps [of n] str_nat.simps [of m])
      then have "str_nat (n div 10) = str_nat (m div 10)"
            and d: "digit_char (n mod 10) = digit_char (m mod 10)"
        by simp_all
      with n_big "1.IH" have q: "n div 10 = m div 10" by blast
      have r: "n mod 10 = m mod 10"
        using d by (intro digit_char_inj) simp_all
      from q r show ?thesis by (metis div_mult_mod_eq)
    qed
  qed
qed

lemma str_nat_no_underscore: "CHR ''_'' \<notin> set (str_nat n)"
proof
  assume "CHR ''_'' \<in> set (str_nat n)"
  then obtain d where "d < 10" and "CHR ''_'' = digit_char d"
    using str_nat_digits by blast
  then show False using digit_char_not_underscore [of d] by simp
qed

lemma str_nat_no_minus: "CHR ''-'' \<notin> set (str_nat n)"
proof
  assume "CHR ''-'' \<in> set (str_nat n)"
  then obtain d where "d < 10" and "CHR ''-'' = digit_char d"
    using str_nat_digits by blast
  then show False using digit_char_not_minus [of d] by simp
qed

lemma str_int_no_underscore: "CHR ''_'' \<notin> set (str_int i)"
  by (simp add: str_int_def str_nat_no_underscore)

lemma str_nat_hd_not_minus: "hd (str_nat n) \<noteq> CHR ''-''"
  using str_nat_no_minus [of n] str_nat_not_Nil [of n] hd_in_set by metis

lemma str_int_inj: "str_int i = str_int j \<Longrightarrow> i = j"
proof -
  assume eq: "str_int i = str_int j"
  have neg_pos: False if "k < 0" "\<not> l < 0" "str_int k = str_int l" for k l
  proof -
    from that have "CHR ''-'' # str_nat (nat (- k)) = str_nat (nat l)"
      by (simp add: str_int_def)
    then have "hd (str_nat (nat l)) = CHR ''-''" by (metis list.sel(1))
    then show False using str_nat_hd_not_minus by blast
  qed
  show "i = j"
  proof (cases "i < 0")
    case i_neg: True
    show ?thesis
    proof (cases "j < 0")
      case True
      with i_neg eq have "str_nat (nat (- i)) = str_nat (nat (- j))"
        by (simp add: str_int_def)
      then have "nat (- i) = nat (- j)" by (rule str_nat_inj)
      with i_neg True show ?thesis by simp
    next
      case False
      with i_neg eq neg_pos show ?thesis by blast
    qed
  next
    case i_pos: False
    show ?thesis
    proof (cases "j < 0")
      case True
      with i_pos eq neg_pos [of j i] show ?thesis by simp
    next
      case False
      with i_pos eq have "str_nat (nat i) = str_nat (nat j)"
        by (simp add: str_int_def)
      then have "nat i = nat j" by (rule str_nat_inj)
      with i_pos False show ?thesis by simp
    qed
  qed
qed

lemma split_at_separator:
  "c \<notin> set xs \<Longrightarrow> c \<notin> set xs' \<Longrightarrow> xs @ c # ys = xs' @ c # ys' \<Longrightarrow> xs = xs' \<and> ys = ys'"
proof (induction xs arbitrary: xs')
  case Nil
  then show ?case by (cases xs') auto
next
  case (Cons x xs)
  then show ?case by (cases xs') auto
qed

lemma num_iri_inj:
  "num_iri e v aid = num_iri e v' aid' \<longleftrightarrow> v = v' \<and> aid = aid'"
proof
  assume "num_iri e v aid = num_iri e v' aid'"
  then have "str_int v @ CHR ''_'' # str_int aid = str_int v' @ CHR ''_'' # str_int aid'"
    by (simp add: num_iri_def MATH_def)
  then have "str_int v = str_int v' \<and> str_int aid = str_int aid'"
    by (rule split_at_separator [OF str_int_no_underscore str_int_no_underscore])
  then show "v = v' \<and> aid = aid'" using str_int_inj by blast
qed simp

lemma expr_iri_inj: "expr_iri e aid = expr_iri e aid' \<longleftrightarrow> aid = aid'"
  by (auto simp: expr_iri_def MATH_def dest: str_int_inj)

lemma expr_iri_not_num: "expr_iri e aid \<noteq> num_iri e v aid'"
  by (simp add: expr_iri_def num_iri_def MATH_def)

section \<open>Parsing what str prints\<close>

text \<open>
  \<open>int\<close> reads back what \<open>str\<close> writes, up to the digit limit; so every integer that fits
  a 64-bit column is the value of some form text.
\<close>

lemma digit_char_is_digit: "d < 10 \<Longrightarrow> is_digit (digit_char d)"
  by (simp add: is_digit_def digit_char_code)

lemma digit_char_val: "d < 10 \<Longrightarrow> digit_val (digit_char d) = int d"
  by (simp add: digit_val_def digit_char_code)

lemma str_nat_is_digit: "c \<in> set (str_nat n) \<Longrightarrow> is_digit c"
  using str_nat_digits digit_char_is_digit by blast

lemma is_digit_plain:
  assumes "is_digit c"
  shows "\<not> is_space c" and "c \<noteq> CHR ''_''" and "c \<noteq> CHR ''-''" and "c \<noteq> CHR ''+''"
proof -
  from assms have k: "48 \<le> (of_char c :: nat)" by (simp add: is_digit_def Let_def)
  show "\<not> is_space c" using k by (simp add: is_space_def Let_def)
  show "c \<noteq> CHR ''_''" using assms by (auto simp: is_digit_def Let_def)
  show "c \<noteq> CHR ''-''" using k by auto
  show "c \<noteq> CHR ''+''" using k by auto
qed

lemma dropWhile_none: "(\<forall>c\<in>set xs. \<not> P c) \<Longrightarrow> dropWhile P xs = xs"
  by (cases xs) simp_all

lemma strip_plain: "(\<forall>c\<in>set s. \<not> is_space c) \<Longrightarrow> strip s = s"
  by (simp add: strip_def dropWhile_none)

lemma digits_ok_all: "xs \<noteq> [] \<Longrightarrow> (\<forall>c\<in>set xs. is_digit c) \<Longrightarrow> digits_ok xs"
proof (induction xs rule: digits_ok.induct)
  case 1
  then show ?case by simp
next
  case (2 c)
  then show ?case by simp
next
  case (3 c d cs)
  then have "is_digit d" by simp
  then have "d \<noteq> CHR ''_''" by (rule is_digit_plain)
  with 3 show ?case by simp
qed

lemma str_nat_value: "foldl (\<lambda>acc c. 10 * acc + digit_val c) 0 (str_nat n) = int n"
proof (induction n rule: str_nat.induct)
  case (1 n)
  show ?case
  proof (cases "n < 10")
    case True
    then show ?thesis by (simp add: str_nat.simps [of n] digit_char_val)
  next
    case False
    have "foldl (\<lambda>acc c. 10 * acc + digit_val c) 0 (str_nat n)
            = 10 * int (n div 10) + int (n mod 10)"
      using False "1.IH" by (simp add: str_nat.simps [of n] digit_char_val)
    also have "\<dots> = int n" by (simp add: zdiv_int zmod_int)
    finally show ?thesis .
  qed
qed

lemma str_nat_length: "n < 10 ^ k \<Longrightarrow> 0 < k \<Longrightarrow> length (str_nat n) \<le> k"
proof (induction n arbitrary: k rule: str_nat.induct)
  case (1 n)
  show ?case
  proof (cases "n < 10")
    case True
    with "1.prems" show ?thesis by (simp add: str_nat.simps [of n])
  next
    case False
    from "1.prems" obtain j where k: "k = Suc j" by (cases k) auto
    with False "1.prems" have "0 < j" by (cases j) auto
    from "1.prems" k have "n div 10 < 10 ^ j"
      by (simp add: less_mult_imp_div_less mult.commute)
    with False "1.IH" \<open>0 < j\<close> have "length (str_nat (n div 10)) \<le> j" by blast
    with False k show ?thesis by (simp add: str_nat.simps [of n])
  qed
qed

lemma py_int_str_nat:
  assumes "length (str_nat n) \<le> 4300"
  shows "py_int (str_nat n) = Inr (int n)"
proof -
  have digits: "\<forall>c\<in>set (str_nat n). is_digit c" using str_nat_is_digit by blast
  then have plain: "\<forall>c\<in>set (str_nat n). \<not> is_space c" and no_us: "\<forall>c\<in>set (str_nat n). c \<noteq> CHR ''_''"
    using is_digit_plain by blast+
  obtain c r where cr: "str_nat n = c # r" using str_nat_not_Nil [of n] by (cases "str_nat n") auto
  with digits have "is_digit c" by simp
  then have "c \<noteq> CHR ''-''" "c \<noteq> CHR ''+''" by (rule is_digit_plain)+
  then have sign: "split_sign (str_nat n) = (False, str_nat n)"
    by (simp add: split_sign_def cr)
  have body: "digits_ok (str_nat n)" using digits str_nat_not_Nil by (rule digits_ok_all [rotated])
  have keep: "filter (\<lambda>c. c \<noteq> CHR ''_'') (str_nat n) = str_nat n" using no_us by simp
  show ?thesis
    by (simp add: py_int_def strip_plain [OF plain] sign keep body assms str_nat_value)
qed

lemma py_int_str_int:
  assumes "length (str_nat (nat \<bar>i\<bar>)) \<le> 4300"
  shows "py_int (str_int i) = Inr i"
proof (cases "i < 0")
  case False
  then show ?thesis using py_int_str_nat [of "nat i"] assms by (simp add: str_int_def)
next
  case True
  let ?n = "nat (- i)"
  have len: "length (str_nat ?n) \<le> 4300" using assms True by simp
  have digits: "\<forall>c\<in>set (str_nat ?n). is_digit c" using str_nat_is_digit by blast
  then have plain: "\<forall>c\<in>set (str_nat ?n). \<not> is_space c" and no_us: "\<forall>c\<in>set (str_nat ?n). c \<noteq> CHR ''_''"
    using is_digit_plain by blast+
  have minus: "\<not> is_space CHR ''-''" by (simp add: is_space_def)
  have all_plain: "\<forall>c\<in>set (CHR ''-'' # str_nat ?n). \<not> is_space c" using plain minus by simp
  have body: "digits_ok (str_nat ?n)" using digits str_nat_not_Nil by (rule digits_ok_all [rotated])
  have keep: "filter (\<lambda>c. c \<noteq> CHR ''_'') (str_nat ?n) = str_nat ?n" using no_us by simp
  have "py_int (CHR ''-'' # str_nat ?n) = Inr (- int ?n)"
    by (simp add: py_int_def strip_plain [OF all_plain] split_sign_def keep body len str_nat_value)
  with True show ?thesis by (simp add: str_int_def)
qed

lemma py_int_reaches_storable: "sqlite_integer i \<Longrightarrow> py_int (str_int i) = Inr i"
proof (rule py_int_str_int)
  assume "sqlite_integer i"
  then have "nat \<bar>i\<bar> \<le> 2 ^ 63" by (auto simp: sqlite_integer_def)
  also have "\<dots> < (10::nat) ^ 19" by simp
  finally have "length (str_nat (nat \<bar>i\<bar>)) \<le> 19" by (rule str_nat_length) simp
  then show "length (str_nat (nat \<bar>i\<bar>)) \<le> 4300" by simp
qed

section \<open>Running the check route\<close>

lemma foldl_emit_trace:
  "foldl (\<lambda>s t. emit (f t) s) st ts = st\<lparr>trace := trace st @ map f ts\<rparr>"
  by (induction ts arbitrary: st) (simp_all add: emit_def)

lemma annotate_eq:
  "annotate e aid a b s st =
     (attempt_graph e aid a b s,
      st\<lparr>trace := trace st @ [Ev_graph_new, Ev_graph_bind]
                    @ map Ev_graph_add (attempt_triples e aid a b s)\<rparr>)"
  unfolding annotate_def foldl_emit_trace by (simp add: emit_def)

lemma check_answer_unstorable:
  assumes "current_user req = Some uid"
      and "form_int req ''a'' = Inr a"
      and "form_int req ''b'' = Inr b"
      and "form_int req ''answer'' = Inr s"
      and "\<not> storable \<lparr>user_id = uid, operand_a = a, operand_b = b, student_answer = s,
                     correct_answer = a + b, is_correct = (s = a + b)\<rparr>"
  shows "check_answer e req st = (Unhandled OverflowError, st\<lparr>trace := trace st @ [Ev_session_add]\<rparr>)"
  using assms
  by (simp add: check_answer_def db_session_commit_def db_session_add_def emit_def Let_def)

lemma check_answer_stored:
  assumes "current_user req = Some uid"
      and "form_int req ''a'' = Inr a"
      and "form_int req ''b'' = Inr b"
      and "form_int req ''answer'' = Inr s"
      and "storable \<lparr>user_id = uid, operand_a = a, operand_b = b, student_answer = s,
                     correct_answer = a + b, is_correct = (s = a + b)\<rparr>"
  shows "check_answer e req st =
     (let aid = next_rowid (attempt_table st);
          g = attempt_graph e aid a b s;
          st5 = st\<lparr>attempt_table := attempt_table st @
                     [insert_row e \<lparr>user_id = uid, operand_a = a, operand_b = b, student_answer = s,
                        correct_answer = a + b, is_correct = (s = a + b)\<rparr> aid],
                   trace := trace st @ [Ev_session_add, Ev_commit aid, Ev_graph_new, Ev_graph_bind]
                     @ map Ev_graph_add (attempt_triples e aid a b s)
                     @ [Ev_print turtle_header, Ev_serialize g]\<rparr>
      in case serialize e g of
           Inl err \<Rightarrow> (Unhandled err, st5)
         | Inr text \<Rightarrow> (Json (result_payload a b (a + b) (s = a + b)),
                         st5\<lparr>trace := trace st5 @ [Ev_print text]\<rparr>))"
  using assms
  by (simp add: check_answer_def db_session_commit_def db_session_add_def annotate_eq emit_def Let_def
        split: sum.splits)

section \<open>The graph of an attempt\<close>

lemma triples_foldl_graph_add:
  "set (triples (foldl (\<lambda>g t. graph_add t g) g ts)) = set (triples g) \<union> set ts"
  by (induction ts arbitrary: g) (auto simp: graph_add_def)

lemma foldl_graph_add_absorb:
  "set ts \<subseteq> set (triples g) \<Longrightarrow> foldl (\<lambda>g t. graph_add t g) g ts = g"
  by (induction ts arbitrary: g) (auto simp: graph_add_def)

lemma attempt_graph_triples:
  "set (triples (attempt_graph e aid a b s)) = set (attempt_triples e aid a b s)"
  by (simp add: attempt_graph_def triples_foldl_graph_add graph_bind_def Graph_def)

lemma attempt_triples_ontology:
  "ONTOLOGY e1 = ONTOLOGY e2 \<Longrightarrow> attempt_triples e1 aid a b s = attempt_triples e2 aid a b s"
  by (simp add: attempt_triples_def expr_iri_def num_iri_def MATH_def ONTO_IRI_def)

lemma RDF_type_not_hasResult: "RDF_type \<noteq> MATH e ''hasResult''"
proof
  assume "RDF_type = MATH e ''hasResult''"
  then have "''http://www.w3.org/1999/02/22-rdf-syntax-ns#type'' = ONTO_IRI e @ ''hasResult''"
    by (simp add: RDF_type_def MATH_def)
  then have "last ''http://www.w3.org/1999/02/22-rdf-syntax-ns#type'' = last (ONTO_IRI e @ ''hasResult'')"
    by (rule arg_cong)
  then show False by simp
qed

lemma iri_not_literal:
  "MATH e x \<noteq> Literal v" "Literal v \<noteq> MATH e x"
  "expr_iri e aid \<noteq> Literal v" "Literal v \<noteq> expr_iri e aid"
  "num_iri e w aid \<noteq> Literal v" "Literal v \<noteq> num_iri e w aid"
  by (simp_all add: MATH_def expr_iri_def num_iri_def)

lemma MATH_inj: "MATH e x = MATH e y \<longleftrightarrow> x = y"
  by (simp add: MATH_def)

lemma result_carries_submitted:
  "(expr_iri e aid, MATH e ''hasResult'', n) \<in> set (triples (attempt_graph e aid a b s))
      \<longleftrightarrow> n = num_iri e s aid"
  using RDF_type_not_hasResult [of e]
  by (simp add: attempt_graph_triples attempt_triples_def Let_def MATH_inj expr_iri_not_num
        expr_iri_not_num [symmetric]) 

lemma result_value:
  "(num_iri e s aid, MATH e ''hasValue'', Literal v) \<in> set (triples (attempt_graph e aid a b s))
      \<longleftrightarrow> v = s"
  by (auto simp add: attempt_graph_triples attempt_triples_def Let_def num_iri_inj
        iri_not_literal expr_iri_not_num [symmetric])

lemma literal_sum:
  "s \<noteq> a + b \<Longrightarrow>
   (x, p, Literal (a + b)) \<in> set (triples (attempt_graph e aid a b s))
      \<longleftrightarrow> p = MATH e ''hasValue'' \<and> ((x = num_iri e a aid \<and> b = 0) \<or> (x = num_iri e b aid \<and> a = 0))"
  by (auto simp add: attempt_graph_triples attempt_triples_def Let_def iri_not_literal)

section \<open>Keys, ordering, parsing and the trace\<close>

lemma fold_max_lower: "(m::int) \<le> fold max xs m"
proof (induction xs arbitrary: m)
  case Nil
  show ?case by simp
next
  case (Cons x xs)
  have "m \<le> max x m" by simp
  also have "\<dots> \<le> fold max xs (max x m)" by (rule Cons.IH)
  finally show ?case by simp
qed

lemma fold_max_upper: "x \<in> set xs \<Longrightarrow> (x::int) \<le> fold max xs m"
proof (induction xs arbitrary: m)
  case Nil
  then show ?case by simp
next
  case (Cons y ys)
  show ?case
  proof (cases "x = y")
    case True
    have "x \<le> max y m" using True by simp
    also have "\<dots> \<le> fold max ys (max y m)" by (rule fold_max_lower)
    finally show ?thesis by simp
  next
    case False
    with Cons.prems have "x \<in> set ys" by simp
    then show ?thesis using Cons.IH by simp
  qed
qed

lemma next_rowid_fresh: "r \<in> set tbl \<Longrightarrow> attempt_id r < next_rowid tbl"
proof -
  assume "r \<in> set tbl"
  then have "attempt_id r \<in> set (map attempt_id tbl)" by simp
  then have "attempt_id r \<le> fold max (map attempt_id tbl) 0" by (rule fold_max_upper)
  then show ?thesis by (simp add: next_rowid_def)
qed

lemma next_rowid_positive: "0 < next_rowid tbl"
  using fold_max_lower [of 0 "map attempt_id tbl"] by (simp add: next_rowid_def)

lemma order_by_sorted:
  "sorted_wrt (\<lambda>x y. timestamp y \<le> timestamp x) (order_by_timestamp_desc rows)"
proof -
  have "sorted (map (\<lambda>r. - timestamp r) (sort_key (\<lambda>r. - timestamp r) rows))"
    by (rule sorted_sort_key)
  then show ?thesis
    by (simp add: order_by_timestamp_desc_def sorted_map)
qed

lemma order_by_set: "set (order_by_timestamp_desc rows) = set rows"
  by (simp add: order_by_timestamp_desc_def)

lemma order_by_distinct:
  "distinct (map timestamp (order_by_timestamp_desc rows)) = distinct (map timestamp rows)"
  by (simp add: distinct_map order_by_set) (simp add: order_by_timestamp_desc_def)

lemma sorted_distinct_strict:
  "sorted_wrt (\<lambda>x y. timestamp y \<le> timestamp x) xs \<Longrightarrow> distinct (map timestamp xs)
     \<Longrightarrow> sorted_wrt (\<lambda>x y. timestamp y < timestamp x) (xs :: attempt list)"
proof (induction xs)
  case Nil
  show ?case by simp
next
  case (Cons x xs)
  from Cons.prems have le: "\<forall>y\<in>set xs. timestamp y \<le> timestamp x" by simp
  from Cons.prems have "timestamp x \<notin> timestamp ` set xs" by simp
  then have ne: "\<forall>y\<in>set xs. timestamp y \<noteq> timestamp x" by (metis imageI)
  from le ne have "\<forall>y\<in>set xs. timestamp y < timestamp x" by force
  with Cons show ?case by simp
qed

lemma page_slice_sorted:
  "sorted_wrt P xs \<Longrightarrow> sorted_wrt P (take n (drop k xs))"
  by (simp add: sorted_wrt_take sorted_wrt_drop)

lemma page_slice_subset: "set (take n (drop k xs)) \<subseteq> set xs"
  by (meson set_take_subset set_drop_subset subset_trans)

lemma py_int_error: "py_int v = Inl err \<Longrightarrow> err = ValueError"
  by (auto simp: py_int_def Let_def split: prod.splits if_splits)



lemma check_answer_trace_cases:
  "(check_answer e req st = (fst (check_answer e req st), st))
   \<or> (fst (check_answer e req st) = Unhandled OverflowError
        \<and> snd (check_answer e req st) = st\<lparr>trace := trace st @ [Ev_session_add]\<rparr>)
   \<or> (\<exists>row rest.
        attempt_table (snd (check_answer e req st)) = attempt_table st @ [row]
        \<and> attempt_id row = next_rowid (attempt_table st)
        \<and> trace (snd (check_answer e req st))
             = trace st @ Ev_session_add # Ev_commit (next_rowid (attempt_table st)) # rest)"
proof (cases "\<exists>uid a b s. current_user req = Some uid \<and> form_int req ''a'' = Inr a
                \<and> form_int req ''b'' = Inr b \<and> form_int req ''answer'' = Inr s")
  case False
  then have "check_answer e req st = (fst (check_answer e req st), st)"
    by (auto simp: check_answer_def split: option.splits sum.splits)
  then show ?thesis by blast
next
  case True
  then obtain uid a b s where h: "current_user req = Some uid" "form_int req ''a'' = Inr a"
     "form_int req ''b'' = Inr b" "form_int req ''answer'' = Inr s" by blast
  show ?thesis
  proof (cases "storable \<lparr>user_id = uid, operand_a = a, operand_b = b, student_answer = s,
                     correct_answer = a + b, is_correct = (s = a + b)\<rparr>")
    case False
    then show ?thesis
      using check_answer_unstorable [OF h False, of e st] by simp
  next
    case True
    have "\<exists>row rest.
        attempt_table (snd (check_answer e req st)) = attempt_table st @ [row]
        \<and> attempt_id row = next_rowid (attempt_table st)
        \<and> trace (snd (check_answer e req st))
             = trace st @ Ev_session_add # Ev_commit (next_rowid (attempt_table st)) # rest"
      unfolding check_answer_stored [OF h True, of e st]
      by (cases "serialize e (attempt_graph e (next_rowid (attempt_table st)) a b s)")
         (simp_all add: Let_def insert_row_def)
    then show ?thesis by blast
  qed
qed

lemma commit_before_index:
  assumes "annotation_event ((Ev_session_add # Ev_commit aid # rest) ! i)"
  shows "\<exists>j<i. (Ev_session_add # Ev_commit aid # rest) ! j = Ev_commit aid"
proof (cases i)
  case 0
  with assms show ?thesis by (simp add: annotation_event_def)
next
  case (Suc k)
  show ?thesis
  proof (cases k)
    case 0
    with Suc assms show ?thesis by (simp add: annotation_event_def)
  next
    case (Suc l)
    with \<open>i = Suc k\<close> have "Suc 0 < i" by simp
    moreover have "(Ev_session_add # Ev_commit aid # rest) ! Suc 0 = Ev_commit aid" by simp
    ultimately show ?thesis by blast
  qed
qed

section \<open>The claims about the check route\<close>

lemma sample_parses:
  "current_user (submission x y z) = Some 1"
  "form_int (submission ''3'' ''4'' ''7'') ''a'' = Inr 3"
  "form_int (submission ''3'' ''4'' ''7'') ''b'' = Inr 4"
  "form_int (submission ''3'' ''4'' ''7'') ''answer'' = Inr 7"
  by (simp add: submission_def, code_simp, code_simp, code_simp)

lemma sample_storable:
  "storable \<lparr>user_id = 1, operand_a = 3, operand_b = 4, student_answer = 7,
             correct_answer = 3 + 4, is_correct = (7 = (3::int) + 4)\<rparr>"
  by (simp add: storable_def sqlite_integer_def)

text \<open>
  C1. For a logged-in request whose fields \<open>a\<close>, \<open>b\<close> and \<open>answer\<close> parse to the integers
  \<open>a\<close>, \<open>b\<close>, \<open>s\<close>: the handler computes \<open>correct = a + b\<close> and
  \<open>is_correct = (s = correct)\<close>; the row it stores holds exactly these, after the rows
  that were there before, which stay as they were; a JSON answer carries them too. When a
  value does not fit the 64-bit column the commit raises and the table is unchanged.
  Every integer that fits the column is the value of some form text
  (\<open>py_int_reaches_storable\<close>), so the statement is about all integers the route can store.
\<close>

theorem check_answer_stores_sum:
  assumes "current_user req = Some uid"
      and "form_int req ''a'' = Inr a"
      and "form_int req ''b'' = Inr b"
      and "form_int req ''answer'' = Inr s"
  shows "(storable \<lparr>user_id = uid, operand_a = a, operand_b = b, student_answer = s,
                    correct_answer = a + b, is_correct = (s = a + b)\<rparr>
            \<longrightarrow> attempt_table (snd (check_answer e req st))
                  = attempt_table st @
                    [\<lparr>user_id = uid, operand_a = a, operand_b = b, student_answer = s,
                      correct_answer = a + b, is_correct = (s = a + b),
                      attempt_id = next_rowid (attempt_table st),
                      timestamp = current_timestamp e\<rparr>])
       \<and> (\<not> storable \<lparr>user_id = uid, operand_a = a, operand_b = b, student_answer = s,
                    correct_answer = a + b, is_correct = (s = a + b)\<rparr>
            \<longrightarrow> fst (check_answer e req st) = Unhandled OverflowError
                \<and> attempt_table (snd (check_answer e req st)) = attempt_table st)
       \<and> (\<forall>p. fst (check_answer e req st) = Json p
            \<longrightarrow> map_of p ''answer'' = Some (JInt (a + b))
                \<and> map_of p ''correct'' = Some (JBool (s = a + b)))"
proof (cases "storable \<lparr>user_id = uid, operand_a = a, operand_b = b, student_answer = s,
                    correct_answer = a + b, is_correct = (s = a + b)\<rparr>")
  case True
  show ?thesis
    unfolding check_answer_stored [OF assms True, of e st]
    by (cases "serialize e (attempt_graph e (next_rowid (attempt_table st)) a b s)")
       (simp_all add: True Let_def insert_row_def result_payload_def)
next
  case False
  show ?thesis
    unfolding check_answer_unstorable [OF assms False, of e st]
    by (simp add: False)
qed

theorem check_answer_stores_sum_witness:
  "attempt_table (snd (check_answer sample_env (submission ''3'' ''4'' ''7'') empty_db))
     = [\<lparr>user_id = 1, operand_a = 3, operand_b = 4, student_answer = 7,
         correct_answer = 7, is_correct = True, attempt_id = 1, timestamp = 100\<rparr>]"
  using check_answer_stores_sum [OF sample_parses, of sample_env empty_db] sample_storable
  by (simp add: empty_db_def next_rowid_def sample_env_def)

section \<open>Evaluating the sample runs\<close>

lemma py_int_samples:
  "py_int ''0'' = Inr 0" "py_int ''1'' = Inr 1" "py_int ''2'' = Inr 2" "py_int ''3'' = Inr 3"
  "py_int ''4'' = Inr 4" "py_int ''5'' = Inr 5" "py_int ''7'' = Inr 7" "py_int ''8'' = Inr 8"
  "py_int ''abc'' = Inl ValueError"
  by code_simp+

lemma submission_fields:
  "current_user (submission x y z) = Some 1"
  "map_of (form (submission x y z)) ''a'' = Some x"
  "map_of (form (submission x y z)) ''b'' = Some y"
  "map_of (form (submission x y z)) ''answer'' = Some z"
  by (simp_all add: submission_def)

lemma sample_run:
  assumes "py_int x = Inr a" and "py_int y = Inr b" and "py_int z = Inr s"
      and "storable \<lparr>user_id = 1, operand_a = a, operand_b = b, student_answer = s,
                     correct_answer = a + b, is_correct = (s = a + b)\<rparr>"
  shows "fst (check_answer sample_env (submission x y z) st)
           = Json (result_payload a b (a + b) (s = a + b))"
    and "fst (check_answer failing_env (submission x y z) st) = Unhandled (Raised ''Exception'')"
    and "attempt_table (snd (check_answer sample_env (submission x y z) st))
           = attempt_table st @
             [\<lparr>user_id = 1, operand_a = a, operand_b = b, student_answer = s,
               correct_answer = a + b, is_correct = (s = a + b),
               attempt_id = next_rowid (attempt_table st), timestamp = 100\<rparr>]"
    and "trace (snd (check_answer sample_env (submission x y z) st))
           = trace st @ [Ev_session_add, Ev_commit (next_rowid (attempt_table st)),
                         Ev_graph_new, Ev_graph_bind]
             @ map Ev_graph_add (attempt_triples sample_env (next_rowid (attempt_table st)) a b s)
             @ [Ev_print turtle_header,
                Ev_serialize (attempt_graph sample_env (next_rowid (attempt_table st)) a b s)]
             @ (case lines_of (attempt_graph sample_env (next_rowid (attempt_table st)) a b s) of
                  Inr text \<Rightarrow> [Ev_print text] | Inl _ \<Rightarrow> [])"
proof -
  have h: "current_user (submission x y z) = Some 1" "form_int (submission x y z) ''a'' = Inr a"
    "form_int (submission x y z) ''b'' = Inr b" "form_int (submission x y z) ''answer'' = Inr s"
    using assms(1-3) by (simp_all add: form_int_def submission_fields)
  have ser: "serialize sample_env = lines_of" "serialize failing_env = (\<lambda>g. Inl (Raised ''Exception''))"
    "current_timestamp sample_env = 100"
    by (simp_all add: sample_env_def failing_env_def)
  show "fst (check_answer sample_env (submission x y z) st)
           = Json (result_payload a b (a + b) (s = a + b))"
    unfolding check_answer_stored [OF h assms(4)] by (simp add: Let_def ser lines_of_def)
  show "fst (check_answer failing_env (submission x y z) st) = Unhandled (Raised ''Exception'')"
    unfolding check_answer_stored [OF h assms(4)] by (simp add: Let_def ser)
  show "attempt_table (snd (check_answer sample_env (submission x y z) st))
           = attempt_table st @
             [\<lparr>user_id = 1, operand_a = a, operand_b = b, student_answer = s,
               correct_answer = a + b, is_correct = (s = a + b),
               attempt_id = next_rowid (attempt_table st), timestamp = 100\<rparr>]"
    unfolding check_answer_stored [OF h assms(4)]
    by (simp add: Let_def ser lines_of_def insert_row_def)
  show "trace (snd (check_answer sample_env (submission x y z) st))
           = trace st @ [Ev_session_add, Ev_commit (next_rowid (attempt_table st)),
                         Ev_graph_new, Ev_graph_bind]
             @ map Ev_graph_add (attempt_triples sample_env (next_rowid (attempt_table st)) a b s)
             @ [Ev_print turtle_header,
                Ev_serialize (attempt_graph sample_env (next_rowid (attempt_table st)) a b s)]
             @ (case lines_of (attempt_graph sample_env (next_rowid (attempt_table st)) a b s) of
                  Inr text \<Rightarrow> [Ev_print text] | Inl _ \<Rightarrow> [])"
    unfolding check_answer_stored [OF h assms(4)]
    by (simp add: Let_def ser lines_of_def)
qed

lemma small_storable:
  "storable \<lparr>user_id = 1, operand_a = 3, operand_b = 4, student_answer = 7,
             correct_answer = 3 + 4, is_correct = (7 = (3::int) + 4)\<rparr>"
  "storable \<lparr>user_id = 1, operand_a = 3, operand_b = 4, student_answer = 8,
             correct_answer = 3 + 4, is_correct = (8 = (3::int) + 4)\<rparr>"
  "storable \<lparr>user_id = 1, operand_a = 1, operand_b = 1, student_answer = 2,
             correct_answer = 1 + 1, is_correct = (2 = (1::int) + 1)\<rparr>"
  "storable \<lparr>user_id = 1, operand_a = 0, operand_b = 5, student_answer = 3,
             correct_answer = 0 + 5, is_correct = (3 = (0::int) + 5)\<rparr>"
  by (simp_all add: storable_def sqlite_integer_def)

lemma result_message_samples:
  "result_message 3 4 7 True = check_mark @ '' Correct! 3 + 4 = 7''"
  "result_message 3 4 7 False = cross_mark @ '' Try again. 3 + 4 = 7''"
  by code_simp+

lemma form_int_failure:
  "form_int req k = Inl out \<Longrightarrow> out = Bad_request \<or> out = Unhandled ValueError"
  by (auto simp: form_int_def split: option.splits sum.splits dest: py_int_error)

lemma check_answer_unparsed:
  assumes "\<not> (\<exists>uid a b s. current_user req = Some uid \<and> form_int req ''a'' = Inr a
                \<and> form_int req ''b'' = Inr b \<and> form_int req ''answer'' = Inr s)"
  shows "snd (check_answer e req st) = st
         \<and> fst (check_answer e req st) \<in> {Redirect ''login'', Bad_request, Unhandled ValueError}"
proof (cases "current_user req")
  case None
  then show ?thesis by (simp add: check_answer_def)
next
  case (Some uid)
  show ?thesis
  proof (cases "form_int req ''a''")
    case (Inl out)
    with Some form_int_failure [OF Inl] show ?thesis by (auto simp: check_answer_def)
  next
    case a: (Inr a)
    show ?thesis
    proof (cases "form_int req ''b''")
      case (Inl out)
      with Some a form_int_failure [OF Inl] show ?thesis by (auto simp: check_answer_def)
    next
      case b: (Inr b)
      show ?thesis
      proof (cases "form_int req ''answer''")
        case (Inl out)
        with Some a b form_int_failure [OF Inl] show ?thesis by (auto simp: check_answer_def)
      next
        case (Inr s)
        with Some a b assms show ?thesis by blast
      qed
    qed
  qed
qed

section \<open>The result payload\<close>

text \<open>
  C2 (as amended). Whenever the check route answers with a JSON body, the body has the
  keys \<open>correct\<close> (a boolean: whether the submitted answer equals \<open>a + b\<close>),
  \<open>answer\<close> (the integer \<open>a + b\<close>) and \<open>message\<close> (text), in this order and no others. For
  \<open>a = 3\<close>, \<open>b = 4\<close> and answer 7 it holds \<open>correct: true\<close>, \<open>answer: 7\<close>; for answer 8 it
  holds \<open>correct: false\<close>, \<open>answer: 7\<close>.
\<close>

theorem check_answer_payload:
  assumes "fst (check_answer e req st) = Json p"
  shows "\<exists>a b s. form_int req ''a'' = Inr a \<and> form_int req ''b'' = Inr b
           \<and> form_int req ''answer'' = Inr s
           \<and> p = [(''correct'', JBool (s = a + b)),
                  (''answer'', JInt (a + b)),
                  (''message'', JStr (result_message a b (a + b) (s = a + b)))]"
proof (cases "\<exists>uid a b s. current_user req = Some uid \<and> form_int req ''a'' = Inr a
                \<and> form_int req ''b'' = Inr b \<and> form_int req ''answer'' = Inr s")
  case False
  from check_answer_unparsed [OF False, of e st] assms show ?thesis by auto
next
  case True
  then obtain uid a b s where h: "current_user req = Some uid" "form_int req ''a'' = Inr a"
     "form_int req ''b'' = Inr b" "form_int req ''answer'' = Inr s" by blast
  have "p = result_payload a b (a + b) (s = a + b)"
  proof (cases "storable \<lparr>user_id = uid, operand_a = a, operand_b = b, student_answer = s,
                     correct_answer = a + b, is_correct = (s = a + b)\<rparr>")
    case False
    from assms show ?thesis
      unfolding check_answer_unstorable [OF h False, of e st] by simp
  next
    case True
    from assms show ?thesis
      unfolding check_answer_stored [OF h True, of e st]
      by (cases "serialize e (attempt_graph e (next_rowid (attempt_table st)) a b s)")
         (simp_all add: Let_def)
  qed
  with h show ?thesis by (simp add: result_payload_def)
qed

theorem check_answer_payload_witness:
  "fst (check_answer sample_env (submission ''3'' ''4'' ''7'') empty_db)
     = Json [(''correct'', JBool True), (''answer'', JInt 7),
             (''message'', JStr (check_mark @ '' Correct! 3 + 4 = 7''))]
   \<and> fst (check_answer sample_env (submission ''3'' ''4'' ''8'') empty_db)
     = Json [(''correct'', JBool False), (''answer'', JInt 7),
             (''message'', JStr (cross_mark @ '' Try again. 3 + 4 = 7''))]"
proof -
  have run7: "fst (check_answer sample_env (submission ''3'' ''4'' ''7'') empty_db)
               = Json (result_payload 3 4 7 True)"
    using sample_run(1) [OF py_int_samples(4) py_int_samples(5) py_int_samples(7) small_storable(1),
            of empty_db]
    by simp
  have run8: "fst (check_answer sample_env (submission ''3'' ''4'' ''8'') empty_db)
               = Json (result_payload 3 4 7 False)"
    using sample_run(1) [OF py_int_samples(4) py_int_samples(5) py_int_samples(8) small_storable(2),
            of empty_db]
    by simp
  have fields: "form_int (submission ''3'' ''4'' ''7'') ''a'' = Inr 3"
    "form_int (submission ''3'' ''4'' ''7'') ''b'' = Inr 4"
    "form_int (submission ''3'' ''4'' ''7'') ''answer'' = Inr 7"
    "form_int (submission ''3'' ''4'' ''8'') ''a'' = Inr 3"
    "form_int (submission ''3'' ''4'' ''8'') ''b'' = Inr 4"
    "form_int (submission ''3'' ''4'' ''8'') ''answer'' = Inr 8"
    by (simp_all add: form_int_def submission_fields py_int_samples)
  from check_answer_payload [OF run7] check_answer_payload [OF run8]
  show ?thesis
    by (simp add: fields run7 run8 result_message_samples)
qed

text \<open>
  The payload for 3 + 4 answered with 7 has no key \<open>is_correct\<close>, and under the key
  \<open>correct\<close> it holds the boolean, not the sum.
\<close>

theorem payload_keys_counterexample:
  "fst (check_answer sample_env (submission ''3'' ''4'' ''7'') empty_db)
     = Json (result_payload 3 4 7 True)
   \<and> map_of (result_payload 3 4 7 True) ''is_correct'' = None
   \<and> map_of (result_payload 3 4 7 True) ''correct'' = Some (JBool True)"
  using sample_run(1) [OF py_int_samples(4) py_int_samples(5) py_int_samples(7) small_storable(1),
          of empty_db]
  by (simp add: result_payload_def)

section \<open>Instance IRIs\<close>

text \<open>
  C3 (as amended). The IRIs minted for one attempt never coincide with an IRI minted for
  an attempt with another identifier, and the identifier given to a new attempt differs
  from that of every stored attempt. Within one attempt the expression IRI differs from
  every number IRI, and two number IRIs coincide exactly when their values are equal: the
  four IRIs are pairwise distinct exactly when \<open>a\<close>, \<open>b\<close> and the submitted answer are.
\<close>

theorem instance_iris_scoped:
  "(aid \<noteq> aid' \<longrightarrow> set (instance_iris e aid a b s) \<inter> set (instance_iris e aid' a' b' s') = {})
   \<and> expr_iri e aid \<noteq> num_iri e v aid
   \<and> (num_iri e v aid = num_iri e w aid \<longleftrightarrow> v = w)
   \<and> (distinct (instance_iris e aid a b s) \<longleftrightarrow> distinct [a, b, s])
   \<and> (\<forall>r \<in> set (attempt_table st). attempt_id r \<noteq> next_rowid (attempt_table st))"
proof (intro conjI impI)
  assume "aid \<noteq> aid'"
  then show "set (instance_iris e aid a b s) \<inter> set (instance_iris e aid' a' b' s') = {}"
    by (simp add: instance_iris_def num_iri_inj expr_iri_inj expr_iri_not_num
          expr_iri_not_num [symmetric])
next
  show "expr_iri e aid \<noteq> num_iri e v aid"
    by (rule expr_iri_not_num)
next
  show "num_iri e v aid = num_iri e w aid \<longleftrightarrow> v = w"
    by (simp add: num_iri_inj)
next
  show "distinct (instance_iris e aid a b s) \<longleftrightarrow> distinct [a, b, s]"
    by (simp add: instance_iris_def num_iri_inj expr_iri_not_num)
next
  show "\<forall>r \<in> set (attempt_table st). attempt_id r \<noteq> next_rowid (attempt_table st)"
    using next_rowid_fresh by fastforce
qed

theorem instance_iris_scoped_witness:
  "set (instance_iris sample_env 1 2 2 4) \<inter> set (instance_iris sample_env 2 2 2 4) = {}
   \<and> distinct (instance_iris sample_env 1 3 4 7)"
  using instance_iris_scoped [of 1 2 sample_env 2 2 4 2 2 4 0 0 empty_db]
        instance_iris_scoped [of 1 2 sample_env 3 4 7 2 2 4 0 0 empty_db]
  by simp

text \<open>For 2 + 2 answered with 4 both operands get the same IRI.\<close>

theorem instance_iris_counterexample:
  "\<not> distinct (instance_iris sample_env 1 2 2 4)"
  by (simp add: instance_iris_def)

section \<open>Failure of the serializer\<close>

text \<open>
  C5 (as amended). The handler has no exception handler around the annotation. When the
  serializer raises, the exception leaves \<open>check_answer\<close> unhandled and no payload is
  returned; the attempt committed before the annotation stays in the table.
\<close>

theorem serialize_failure_propagates:
  assumes "current_user req = Some uid"
      and "form_int req ''a'' = Inr a"
      and "form_int req ''b'' = Inr b"
      and "form_int req ''answer'' = Inr s"
      and "storable \<lparr>user_id = uid, operand_a = a, operand_b = b, student_answer = s,
                     correct_answer = a + b, is_correct = (s = a + b)\<rparr>"
      and "serialize e (attempt_graph e (next_rowid (attempt_table st)) a b s) = Inl err"
  shows "fst (check_answer e req st) = Unhandled err
       \<and> attempt_table (snd (check_answer e req st))
           = attempt_table st @
             [\<lparr>user_id = uid, operand_a = a, operand_b = b, student_answer = s,
               correct_answer = a + b, is_correct = (s = a + b),
               attempt_id = next_rowid (attempt_table st),
               timestamp = current_timestamp e\<rparr>]"
  unfolding check_answer_stored [OF assms(1-5), of e st]
  by (simp add: Let_def assms(6) insert_row_def)

theorem serialize_failure_propagates_witness:
  "fst (check_answer failing_env (submission ''3'' ''4'' ''7'') empty_db)
     = Unhandled (Raised ''Exception'')
   \<and> attempt_table (snd (check_answer failing_env (submission ''3'' ''4'' ''7'') empty_db))
     = [\<lparr>user_id = 1, operand_a = 3, operand_b = 4, student_answer = 7,
         correct_answer = 7, is_correct = True, attempt_id = 1, timestamp = 100\<rparr>]"
proof -
  have fails: "serialize failing_env
                 (attempt_graph failing_env (next_rowid (attempt_table empty_db)) 3 4 7)
               = Inl (Raised ''Exception'')"
    by (simp add: failing_env_def)
  from serialize_failure_propagates [OF sample_parses sample_storable fails]
  show ?thesis
    by (simp add: empty_db_def next_rowid_def failing_env_def sample_env_def)
qed

text \<open>With a serializer that raises, the request for 3 + 4 = 7 ends in that exception.\<close>

theorem serialize_failure_counterexample:
  "fst (check_answer failing_env (submission ''3'' ''4'' ''7'') empty_db)
     = Unhandled (Raised ''Exception'')"
  using sample_run(2) [OF py_int_samples(4) py_int_samples(5) py_int_samples(7) small_storable(1)]
  by simp

section \<open>Non-numeric input\<close>




section \<open>The order of the dashboard\<close>

lemma same_second_table:
  "attempt_table same_second =
     [\<lparr>user_id = 1, operand_a = 3, operand_b = 4, student_answer = 7, correct_answer = 7,
       is_correct = True, attempt_id = 1, timestamp = 100\<rparr>,
      \<lparr>user_id = 1, operand_a = 1, operand_b = 1, student_answer = 2, correct_answer = 2,
       is_correct = True, attempt_id = 2, timestamp = 100\<rparr>]"
  unfolding same_second_def
  by (simp add: sample_run(3) [OF py_int_samples(2) py_int_samples(2) py_int_samples(3) small_storable(3)]
        sample_run(3) [OF py_int_samples(4) py_int_samples(5) py_int_samples(7) small_storable(1)]
        empty_db_def next_rowid_def)

lemma dashboard_first_page:
  "dashboard (submission x y z) st =
     Html \<lparr>items = take 10 (order_by_timestamp_desc (filter_by_user_id 1 (attempt_table st))),
           page = 1, per_page = 10,
           total = length (order_by_timestamp_desc (filter_by_user_id 1 (attempt_table st)))\<rparr>"
  by (simp add: dashboard_def submission_def args_get_int_def paginate_def sqlite_integer_def)

text \<open>
  C4 (as amended). For every user and page, the dashboard lists attempts of that user
  only, taken from the table, ordered by creation timestamp descending: no listed attempt
  is newer than one listed before it. The query names no second key, so attempts with
  equal timestamps come in no promised order of identifier. When the user's timestamps
  are pairwise different the order is strictly newest-first; attempts stored with
  timestamps \<open>t1 < t2 < t3\<close> and identifiers 1, 2, 3 are listed as 3, 2, 1.
\<close>

theorem dashboard_order:
  assumes "dashboard req st = Html pg"
  shows "sorted_wrt (\<lambda>x y. timestamp y \<le> timestamp x) (items pg)
       \<and> (\<forall>r \<in> set (items pg). r \<in> set (attempt_table st) \<and> current_user req = Some (user_id r))
       \<and> (distinct (map timestamp
                      (filter (\<lambda>r. current_user req = Some (user_id r)) (attempt_table st)))
            \<longrightarrow> sorted_wrt (\<lambda>x y. timestamp y < timestamp x) (items pg))"
proof -
  from assms obtain uid where user: "current_user req = Some uid"
    by (auto simp: dashboard_def split: option.splits)
  define rows where "rows = filter_by_user_id uid (attempt_table st)"
  define pg1 where "pg1 = (let p = args_get_int req ''page'' 1 in if p < 1 then 1 else p)"
  have its: "items pg = take 10 (drop (nat ((pg1 - 1) * 10)) (order_by_timestamp_desc rows))"
    using assms user
    by (auto simp: dashboard_def paginate_def rows_def pg1_def Let_def split: if_splits)
  have filt: "filter (\<lambda>r. current_user req = Some (user_id r)) (attempt_table st) = rows"
    unfolding rows_def filter_by_user_id_def user
    by (rule filter_cong) auto
  have c1: "sorted_wrt (\<lambda>x y. timestamp y \<le> timestamp x) (items pg)"
    unfolding its by (rule page_slice_sorted) (rule order_by_sorted)
  have "set (items pg) \<subseteq> set rows"
    unfolding its using page_slice_subset order_by_set by fast
  then have c2: "\<forall>r \<in> set (items pg). r \<in> set (attempt_table st) \<and> current_user req = Some (user_id r)"
    by (auto simp: rows_def filter_by_user_id_def user)
  have c3: "sorted_wrt (\<lambda>x y. timestamp y < timestamp x) (items pg)"
    if "distinct (map timestamp rows)"
    unfolding its
    by (rule page_slice_sorted, rule sorted_distinct_strict, rule order_by_sorted)
       (simp add: order_by_distinct that)
  from c1 c2 c3 show ?thesis unfolding filt by blast
qed

theorem dashboard_order_witness:
  "dashboard (submission [] [] []) three_rows =
     Html \<lparr>items = [sample_row 3 30, sample_row 2 20, sample_row 1 10],
           page = 1, per_page = 10, total = 3\<rparr>
   \<and> sorted_wrt (\<lambda>x y. timestamp y < timestamp x) [sample_row 3 30, sample_row 2 20, sample_row 1 10]
   \<and> map attempt_id [sample_row 3 30, sample_row 2 20, sample_row 1 10] = [3, 2, 1]"
proof -
  have run: "dashboard (submission [] [] []) three_rows =
     Html \<lparr>items = [sample_row 3 30, sample_row 2 20, sample_row 1 10],
           page = 1, per_page = 10, total = 3\<rparr>"
    by (simp add: dashboard_first_page three_rows_def filter_by_user_id_def
          order_by_timestamp_desc_def sample_row_def)
  have "distinct (map timestamp
          (filter (\<lambda>r. current_user (submission [] [] []) = Some (user_id r))
             (attempt_table three_rows)))"
    by (simp add: three_rows_def sample_row_def submission_def)
  with dashboard_order [OF run]
  have "sorted_wrt (\<lambda>x y. timestamp y < timestamp x) [sample_row 3 30, sample_row 2 20, sample_row 1 10]"
    by simp
  with run show ?thesis by (simp add: sample_row_def)
qed

text \<open>
  Two submissions stored in the same second of the database clock are listed with
  identifier 1 before identifier 2.
\<close>

theorem dashboard_ties_counterexample:
  "dashboard (submission [] [] []) same_second =
     Html \<lparr>items =
             [\<lparr>user_id = 1, operand_a = 3, operand_b = 4, student_answer = 7, correct_answer = 7,
               is_correct = True, attempt_id = 1, timestamp = 100\<rparr>,
              \<lparr>user_id = 1, operand_a = 1, operand_b = 1, student_answer = 2, correct_answer = 2,
               is_correct = True, attempt_id = 2, timestamp = 100\<rparr>],
           page = 1, per_page = 10, total = 2\<rparr>"
  by (simp add: dashboard_first_page same_second_table filter_by_user_id_def
        order_by_timestamp_desc_def)

section \<open>Commit before annotation\<close>

text \<open>
  C6. In every run of the check route the steps it adds to the trace extend the old
  trace, and every annotation step among them (creating or binding the graph, adding a
  triple, serializing, printing) comes after the commit of the attempt; when such a step
  has run, the attempt with the committed identifier is in the table at the end.
\<close>

theorem commit_precedes_annotation:
  "take (length (trace st)) (trace (snd (check_answer e req st))) = trace st
   \<and> (\<forall>i < length (drop (length (trace st)) (trace (snd (check_answer e req st)))).
        annotation_event (drop (length (trace st)) (trace (snd (check_answer e req st))) ! i)
        \<longrightarrow> (\<exists>j<i. drop (length (trace st)) (trace (snd (check_answer e req st))) ! j
                       = Ev_commit (next_rowid (attempt_table st)))
            \<and> (\<exists>row. attempt_id row = next_rowid (attempt_table st)
                   \<and> attempt_table (snd (check_answer e req st)) = attempt_table st @ [row]))"
proof -
  consider
    (unchanged) "check_answer e req st = (fst (check_answer e req st), st)"
  | (overflow) "snd (check_answer e req st) = st\<lparr>trace := trace st @ [Ev_session_add]\<rparr>"
  | (committed) row rest where
      "attempt_table (snd (check_answer e req st)) = attempt_table st @ [row]"
      "attempt_id row = next_rowid (attempt_table st)"
      "trace (snd (check_answer e req st))
         = trace st @ Ev_session_add # Ev_commit (next_rowid (attempt_table st)) # rest"
    using check_answer_trace_cases [of e req st] by blast
  then show ?thesis
  proof cases
    case unchanged
    then have "snd (check_answer e req st) = st" by (metis snd_conv)
    then show ?thesis by simp
  next
    case overflow
    then show ?thesis by (simp add: annotation_event_def)
  next
    case committed
    have new: "drop (length (trace st)) (trace (snd (check_answer e req st)))
                 = Ev_session_add # Ev_commit (next_rowid (attempt_table st)) # rest"
      by (simp add: committed(3))
    have pre: "take (length (trace st)) (trace (snd (check_answer e req st))) = trace st"
      by (simp add: committed(3))
    show ?thesis
      unfolding new using pre committed(1,2) commit_before_index by blast
  qed
qed

theorem commit_precedes_annotation_witness:
  "annotation_event (trace (snd (check_answer sample_env (submission ''3'' ''4'' ''7'') empty_db)) ! 2)
   \<and> (\<exists>j<2. trace (snd (check_answer sample_env (submission ''3'' ''4'' ''7'') empty_db)) ! j
               = Ev_commit 1)"
proof -
  let ?tr = "trace (snd (check_answer sample_env (submission ''3'' ''4'' ''7'') empty_db))"
  have tr: "?tr = [Ev_session_add, Ev_commit 1, Ev_graph_new, Ev_graph_bind]
             @ map Ev_graph_add (attempt_triples sample_env 1 3 4 7)
             @ [Ev_print turtle_header, Ev_serialize (attempt_graph sample_env 1 3 4 7)]
             @ (case lines_of (attempt_graph sample_env 1 3 4 7) of
                  Inr text \<Rightarrow> [Ev_print text] | Inl _ \<Rightarrow> [])"
    using sample_run(4) [OF py_int_samples(4) py_int_samples(5) py_int_samples(7) small_storable(1),
            of empty_db]
    by (simp add: empty_db_def next_rowid_def)
  have ann: "annotation_event (?tr ! 2)" and len: "2 < length ?tr"
    unfolding tr by (simp_all add: annotation_event_def)
  have k: "next_rowid (attempt_table empty_db) = 1" "length (trace empty_db) = 0"
    by (simp_all add: empty_db_def next_rowid_def)
  from commit_precedes_annotation [of empty_db sample_env "submission ''3'' ''4'' ''7''"] ann len
  have "\<exists>j<2. ?tr ! j = Ev_commit 1"
    unfolding k by simp
  with ann show ?thesis by (rule conjI)
qed

section \<open>Annotation is a function of its arguments\<close>

text \<open>
  C9. Two runs of the annotation step with the same attempt identifier, operands and
  submitted answer over the same ontology build graphs with the same set of triples,
  whatever the database, the trace, the clock, the graph label and the serializer are.
  The set is that of the ten asserted triples, and asserting them again on the finished
  graph changes nothing.
\<close>

theorem annotate_deterministic:
  assumes "ONTOLOGY e1 = ONTOLOGY e2"
  shows "set (triples (fst (annotate e1 aid a b s st1))) = set (triples (fst (annotate e2 aid a b s st2)))
       \<and> set (triples (fst (annotate e1 aid a b s st1))) = set (attempt_triples e1 aid a b s)
       \<and> foldl (\<lambda>g t. graph_add t g) (fst (annotate e1 aid a b s st1)) (attempt_triples e1 aid a b s)
           = fst (annotate e1 aid a b s st1)"
proof -
  have g1: "fst (annotate e1 aid a b s st1) = attempt_graph e1 aid a b s"
    and g2: "fst (annotate e2 aid a b s st2) = attempt_graph e2 aid a b s"
    by (simp_all add: annotate_def)
  have same: "set (triples (attempt_graph e1 aid a b s)) = set (triples (attempt_graph e2 aid a b s))"
    by (simp only: attempt_graph_triples attempt_triples_ontology [OF assms])
  have again: "foldl (\<lambda>g t. graph_add t g) (attempt_graph e1 aid a b s) (attempt_triples e1 aid a b s)
           = attempt_graph e1 aid a b s"
    by (rule foldl_graph_add_absorb) (simp add: attempt_graph_triples)
  show ?thesis
    unfolding g1 g2
  proof (intro conjI)
    show "set (triples (attempt_graph e1 aid a b s)) = set (triples (attempt_graph e2 aid a b s))"
      by (rule same)
    show "set (triples (attempt_graph e1 aid a b s)) = set (attempt_triples e1 aid a b s)"
      by (rule attempt_graph_triples)
    show "foldl (\<lambda>g t. graph_add t g) (attempt_graph e1 aid a b s) (attempt_triples e1 aid a b s)
           = attempt_graph e1 aid a b s"
      by (rule again)
  qed
qed

theorem annotate_deterministic_witness:
  "set (triples (fst (annotate sample_env 1 3 4 7 empty_db)))
     = set (triples (fst (annotate failing_env 1 3 4 7 three_rows)))"
proof -
  have "ONTOLOGY sample_env = ONTOLOGY failing_env" by (simp add: failing_env_def)
  from annotate_deterministic [OF this, of 1 3 4 7 empty_db three_rows]
  show ?thesis by simp
qed

section \<open>What the result node records\<close>

lemma ONTO_IRI_sample: "ONTO_IRI sample_env = ''http://x/#''"
  by (simp add: ONTO_IRI_def sample_env_def infer_base_iri_def base_prefix_def ensure_hash_def)

text \<open>
  C10 (as amended). The expression's only \<open>hasResult\<close> object is the number instance named
  after the submitted answer, and the only \<open>hasValue\<close> literal of that instance is the
  submitted answer, never the computed sum unless the two are equal. When the attempt is
  incorrect, a triple has the literal \<open>a + b\<close> as object exactly when it is the \<open>hasValue\<close>
  triple of an operand that itself equals the sum (the other operand being 0).
\<close>

theorem result_holds_submitted:
  "((expr_iri e aid, MATH e ''hasResult'', n) \<in> set (triples (attempt_graph e aid a b s))
       \<longleftrightarrow> n = num_iri e s aid)
   \<and> ((num_iri e s aid, MATH e ''hasValue'', Literal v) \<in> set (triples (attempt_graph e aid a b s))
       \<longleftrightarrow> v = s)
   \<and> (s \<noteq> a + b \<longrightarrow>
        ((x, p, Literal (a + b)) \<in> set (triples (attempt_graph e aid a b s))
          \<longleftrightarrow> p = MATH e ''hasValue''
              \<and> ((x = num_iri e a aid \<and> b = 0) \<or> (x = num_iri e b aid \<and> a = 0))))"
  using result_carries_submitted [of e aid n a b s] result_value [of e s aid v a b]
        literal_sum [of s a b x p e aid]
  by simp

theorem result_holds_submitted_witness:
  "(num_iri sample_env 3 1, MATH sample_env ''hasValue'', Literal 5)
      \<notin> set (triples (attempt_graph sample_env 1 0 5 3))
   \<and> (expr_iri sample_env 1, MATH sample_env ''hasValue'', Literal (0 + 5))
      \<notin> set (triples (attempt_graph sample_env 1 0 5 3))"
  using result_holds_submitted [of sample_env 1 "num_iri sample_env 3 1" 0 5 3 5
          "expr_iri sample_env 1" "MATH sample_env ''hasValue''"]
  by (simp add: expr_iri_not_num)

text \<open>
  For 0 + 5 answered with 3 the graph handed to the serializer holds the literal 5, the
  correct sum, as the value of the second operand.
\<close>

theorem literal_sum_counterexample:
  "(URIRef ''http://x/#Num_5_1'', URIRef ''http://x/#hasValue'', Literal (0 + 5))
     \<in> set (triples (attempt_graph sample_env 1 0 5 3))
   \<and> (3::int) \<noteq> 0 + 5
   \<and> Ev_serialize (attempt_graph sample_env 1 0 5 3)
       \<in> set (trace (snd (check_answer sample_env (submission ''0'' ''5'' ''3'') empty_db)))"
proof -
  have iri: "num_iri sample_env 5 1 = URIRef ''http://x/#Num_5_1''"
    "MATH sample_env ''hasValue'' = URIRef ''http://x/#hasValue''"
    by (simp_all add: num_iri_def MATH_def ONTO_IRI_sample) code_simp
  have t: "(num_iri sample_env 5 1, MATH sample_env ''hasValue'', Literal (0 + 5))
     \<in> set (triples (attempt_graph sample_env 1 0 5 3))"
    by (simp add: attempt_graph_triples attempt_triples_def Let_def)
  have ev: "Ev_serialize (attempt_graph sample_env 1 0 5 3)
       \<in> set (trace (snd (check_answer sample_env (submission ''0'' ''5'' ''3'') empty_db)))"
    using sample_run(4) [OF py_int_samples(1) py_int_samples(6) py_int_samples(4) small_storable(4),
            of empty_db]
    by (simp add: empty_db_def next_rowid_def)
  from t ev show ?thesis unfolding iri by simp
qed

end
